theory Spec2Isabelle
  imports Complex_Main
begin

section \<open>Arrays\<close>

text \<open>
  A numpy array of integers is a nested list: a cell, or a sequence of sub-arrays along
  the first axis. Cells are integers, as \<^verbatim>\<open>dtype=int\<close> makes them; sums of cells
  are unbounded integers (a sum of 0/1 cells is far below the 64-bit limit).
  Floating-point results are modelled as real numbers.
\<close>

datatype ndarray = Cell int | Dim "ndarray list"

text \<open>\<^verbatim>\<open>pattern.flatten()\<close>: the cells in row-major order.\<close>

fun flatten :: "ndarray \<Rightarrow> int list" where
  "flatten (Cell c) = [c]"
| "flatten (Dim xs) = concat (map flatten xs)"

text \<open>
  \<^verbatim>\<open>pattern.ndim\<close>. An array whose first extent is 0 keeps no record of further axes
  in the nested form; it has no cells, and every result below is 0 for it whatever rank
  is read off.
\<close>

fun ndim :: "ndarray \<Rightarrow> nat" where
  "ndim (Cell c) = 0"
| "ndim (Dim []) = 1"
| "ndim (Dim (x # xs)) = Suc (ndim x)"

text \<open>\<^verbatim>\<open>pattern.size\<close>: the number of cells.\<close>

definition size_nd :: "ndarray \<Rightarrow> nat" where
  "size_nd pattern = length (flatten pattern)"

text \<open>
  An array is rectangular with extents \<open>sh\<close>. Every numpy array is; the predicate is the
  well-formedness condition of the nested form.
\<close>

fun has_shape :: "nat list \<Rightarrow> ndarray \<Rightarrow> bool" where
  "has_shape [] (Cell c) = True"
| "has_shape (n # ns) (Dim xs) = (length xs = n \<and> list_all (has_shape ns) xs)"
| "has_shape [] (Dim xs) = False"
| "has_shape (n # ns) (Cell c) = False"

text \<open>A binary pattern: every cell is 0 or 1.\<close>

definition binary :: "ndarray \<Rightarrow> bool" where
  "binary pattern = list_all (\<lambda>c. c = 0 \<or> c = 1) (flatten pattern)"

text \<open>
  \<^verbatim>\<open>np.roll(pattern, 1, axis=axis)\<close>: along the given axis the element at position
  \<open>i\<close> moves to position \<open>i + 1\<close> and the last one wraps around to position 0.
  The axis is always below \<^verbatim>\<open>pattern.ndim\<close> in the source, so the cell case (where
  numpy raises AxisError) is not reached on a rectangular array.
\<close>

definition roll_list :: "'a list \<Rightarrow> 'a list" where
  "roll_list xs = (if xs = [] then [] else last xs # butlast xs)"

fun np_roll :: "nat \<Rightarrow> ndarray \<Rightarrow> ndarray" where
  "np_roll axis (Cell c) = Cell c"
| "np_roll 0 (Dim xs) = Dim (roll_list xs)"
| "np_roll (Suc axis) (Dim xs) = Dim (map (np_roll axis) xs)"

text \<open>\<^verbatim>\<open>np.sum(pattern != shifted)\<close> for two arrays of one shape.\<close>

definition neq_count :: "ndarray \<Rightarrow> ndarray \<Rightarrow> nat" where
  "neq_count a b = length (filter (\<lambda>(x, y). x \<noteq> y) (zip (flatten a) (flatten b)))"

section \<open>The metric engine\<close>

text \<open>
  \<^verbatim>\<open>PhiCalculator._calculate_integration\<close>: the loop over the axes accumulates the
  pair (transitions, total_edges).
\<close>

definition integration_step :: "ndarray \<Rightarrow> nat \<Rightarrow> nat \<times> nat \<Rightarrow> nat \<times> nat" where
  "integration_step pattern axis acc =
     (case acc of (transitions, total_edges) \<Rightarrow>
        (transitions + neq_count pattern (np_roll axis pattern),
         total_edges + size_nd pattern))"

definition calculate_integration :: "ndarray \<Rightarrow> real" where
  "calculate_integration pattern =
     (case fold (integration_step pattern) [0..<ndim pattern] (0, 0) of
        (transitions, total_edges) \<Rightarrow>
          if total_edges > 0 then real transitions / real total_edges else 0)"

text \<open>
  \<^verbatim>\<open>PhiCalculator.calculate_phi\<close>, returning (phi, R, S, D). Past the degenerate
  check of a binary pattern \<open>0 < p_alive < 1\<close>, so both logarithms are taken inside
  their domain.
\<close>

definition calculate_phi :: "ndarray \<Rightarrow> real \<times> real \<times> real \<times> real" where
  "calculate_phi pattern =
     (let flat = flatten pattern;
          n_cells = length flat;
          alive_cells = sum_list flat
      in if alive_cells = 0 \<or> alive_cells = int n_cells then (0, 0, 0, 0)
         else
           let R = real_of_int alive_cells / real n_cells;
               S = calculate_integration pattern;
               p_alive = real_of_int alive_cells / real n_cells;
               p_dead = 1 - p_alive;
               D = - (p_alive * log 2 p_alive + p_dead * log 2 p_dead);
               phi = R * S + D
           in (phi, R, S, D))"

text \<open>Names for the set-cell count and for the components of the returned 4-tuple.\<close>

definition alive_cells :: "ndarray \<Rightarrow> int" where
  "alive_cells pattern = sum_list (flatten pattern)"

definition phi_of :: "real \<times> real \<times> real \<times> real \<Rightarrow> real" where
  "phi_of r = fst r"

definition R_of :: "real \<times> real \<times> real \<times> real \<Rightarrow> real" where
  "R_of r = fst (snd r)"

definition S_of :: "real \<times> real \<times> real \<times> real \<Rightarrow> real" where
  "S_of r = fst (snd (snd r))"

definition D_of :: "real \<times> real \<times> real \<times> real \<Rightarrow> real" where
  "D_of r = snd (snd (snd r))"

text \<open>The condition of the early return, and a pattern all of whose cells are \<open>c\<close>.\<close>

definition degenerate :: "ndarray \<Rightarrow> bool" where
  "degenerate pattern =
     (alive_cells pattern = 0 \<or> alive_cells pattern = int (size_nd pattern))"

definition uniform :: "int \<Rightarrow> ndarray \<Rightarrow> bool" where
  "uniform c pattern = list_all (\<lambda>x. x = c) (flatten pattern)"

section \<open>Allocation and slice assignment\<close>

datatype error = ValueError | IndexError

text \<open>An array of the given extents filled with one value.\<close>

fun np_full :: "int \<Rightarrow> nat list \<Rightarrow> ndarray" where
  "np_full c [] = Cell c"
| "np_full c (n # ns) = Dim (replicate n (np_full c ns))"

text \<open>
  \<^verbatim>\<open>np.zeros(shape, dtype=int)\<close> on Python integers: a negative extent raises
  ValueError (negative dimensions are not allowed).
\<close>

definition np_zeros :: "int list \<Rightarrow> error + ndarray" where
  "np_zeros dims =
     (if list_ex (\<lambda>d. d < 0) dims then Inl ValueError
      else Inr (np_full 0 (map nat dims)))"

text \<open>
  \<^verbatim>\<open>pattern.shape\<close>, read off the nested form (an array with first extent 0 shows
  that extent only).
\<close>

fun shape_of :: "ndarray \<Rightarrow> nat list" where
  "shape_of (Cell c) = []"
| "shape_of (Dim []) = [0]"
| "shape_of (Dim (x # xs)) = Suc (length xs) # shape_of x"

text \<open>
  \<^verbatim>\<open>dst[i, :] = src\<close>: the sub-array at index \<open>i\<close> of the first axis is overwritten
  with the values of \<open>src\<close>. A negative index counts from the end; an index outside the
  extent raises IndexError. The callers pass a source of the shape of the slice, so
  broadcasting plays no part.
\<close>

definition setitem_first :: "ndarray \<Rightarrow> int \<Rightarrow> ndarray \<Rightarrow> error + ndarray" where
  "setitem_first dst i src =
     (case dst of
        Cell c \<Rightarrow> Inl IndexError
      | Dim ds \<Rightarrow>
          let n = int (length ds); j = (if i < 0 then i + n else i)
          in if 0 \<le> j \<and> j < n then Inr (Dim (ds[nat j := src])) else Inl IndexError)"

text \<open>
  The values written by \<^verbatim>\<open>dst[..., j] = src\<close> (\<^verbatim>\<open>dst[:, j]\<close>, \<^verbatim>\<open>dst[:, :, j]\<close>,
  \<^verbatim>\<open>dst[:, :, :, j]\<close>): position \<open>j\<close> of the last axis takes the cell of \<open>src\<close> at the
  same leading indices.
\<close>

fun assign_last :: "nat \<Rightarrow> ndarray \<Rightarrow> ndarray \<Rightarrow> ndarray"
  and assign_last_list :: "nat \<Rightarrow> ndarray list \<Rightarrow> ndarray list \<Rightarrow> ndarray list" where
  "assign_last j (Cell d) src = Cell d"
| "assign_last j (Dim ds) (Cell c) = Dim (ds[j := Cell c])"
| "assign_last j (Dim ds) (Dim ss) = Dim (assign_last_list j ds ss)"
| "assign_last_list j [] ss = []"
| "assign_last_list j (d # ds) [] = d # ds"
| "assign_last_list j (d # ds) (s # ss) = assign_last j d s # assign_last_list j ds ss"

text \<open>
  The assignment with its bounds check. \<open>extent\<close> is \<^verbatim>\<open>dst.shape[-1]\<close>, passed along
  by the caller that allocated \<open>dst\<close>: numpy checks the index against it even when the
  array has no cells.
\<close>

definition setitem_last :: "int \<Rightarrow> ndarray \<Rightarrow> int \<Rightarrow> ndarray \<Rightarrow> error + ndarray" where
  "setitem_last extent dst i src =
     (let j = (if i < 0 then i + extent else i)
      in if 0 \<le> j \<and> j < extent then Inr (assign_last (nat j) dst src)
         else Inl IndexError)"

section \<open>The embedding helpers of the test scripts\<close>

text \<open>
  Allocation of a zero array with one more, last, axis of extent \<open>m\<close> and assignment of
  the source to the slice at index \<open>m // 2\<close> of that axis: the body shared by
  \<^verbatim>\<open>embed_1d_to_2d\<close>, \<^verbatim>\<open>embed_2d_to_3d\<close> and the embedding steps of
  \<^verbatim>\<open>test_2d_to_3d\<close> and \<^verbatim>\<open>test_3d_to_4d\<close>.
\<close>

definition embed_last_axis :: "int list \<Rightarrow> int \<Rightarrow> ndarray \<Rightarrow> error + ndarray" where
  "embed_last_axis dims m src =
     (case np_zeros (dims @ [m]) of
        Inl e \<Rightarrow> Inl e
      | Inr dst \<Rightarrow> setitem_last m dst (m div 2) src)"

text \<open>\<^verbatim>\<open>embed_1d_to_2d(grid_1d, y_size)\<close> of test_grid_size_sensitivity.\<close>

definition embed_1d_to_2d :: "ndarray \<Rightarrow> int \<Rightarrow> error + ndarray" where
  "embed_1d_to_2d grid_1d y_size =
     (case shape_of grid_1d of
        [] \<Rightarrow> Inl IndexError
      | x # rest \<Rightarrow> embed_last_axis [int x] y_size grid_1d)"

text \<open>
  \<^verbatim>\<open>embed_2d_to_3d(grid_2d, z_size)\<close> of test_highlife_validation; unpacking the
  shape into two names raises ValueError unless the rank is 2.
\<close>

definition embed_2d_to_3d :: "ndarray \<Rightarrow> int \<Rightarrow> error + ndarray" where
  "embed_2d_to_3d grid_2d z_size =
     (case shape_of grid_2d of
        [x, y] \<Rightarrow> embed_last_axis [int x, int y] z_size grid_2d
      | _ \<Rightarrow> Inl ValueError)"

text \<open>
  The same helper over an object store, to make visible which object is written. The
  store is a list of arrays and an address is an index into it. Allocation appends the
  zero array; the slice assignment replaces the new object only.
\<close>

definition embed_1d_to_2d_store ::
    "ndarray list \<Rightarrow> nat \<Rightarrow> int \<Rightarrow> error + (ndarray list \<times> nat)" where
  "embed_1d_to_2d_store store a y_size =
     (case shape_of (store ! a) of
        [] \<Rightarrow> Inl IndexError
      | x # rest \<Rightarrow>
          (case np_zeros [int x, y_size] of
             Inl e \<Rightarrow> Inl e
           | Inr z \<Rightarrow>
               let b = length store; store1 = store @ [z]
               in (case setitem_last y_size (store1 ! b) (y_size div 2) (store1 ! a) of
                     Inl e \<Rightarrow> Inl e
                   | Inr grid_2d \<Rightarrow> Inr (store1[b := grid_2d], b))))"

section \<open>The cascade validator\<close>

datatype transition = T_1D_2D | T_2D_3D | T_3D_4D

record transition_record =
  pattern_id :: int
  transition :: transition
  phi_lower :: real
  phi_higher :: real
  ratio_phi :: real
  loss_pct :: real
  R_lower :: real
  R_higher :: real
  ratio_R :: real
  S_lower :: real
  S_higher :: real
  ratio_S :: real
  D_lower :: real
  D_higher :: real
  ratio_D :: real
  alive_cells_lower :: int
  alive_cells_higher :: int

record validator =
  n_patterns :: int
  grid_size :: int

text \<open>
  \<^verbatim>\<open>DimensionalCascadeValidator.__init__\<close> stores its two arguments (the calculator
  object it also creates has no state). It has no check and no raise.
\<close>

definition init :: "int \<Rightarrow> int \<Rightarrow> validator" where
  "init n g = \<lparr>n_patterns = n, grid_size = g\<rparr>"

text \<open>
  The pseudo-random source is numpy's: \<open>randint seed sh\<close> stands for
  \<^verbatim>\<open>np.random.RandomState(seed).randint(0, 2, size=sh).astype(int)\<close>, a parameter of the
  model. \<^verbatim>\<open>randint\<close> raises ValueError on a negative extent.
\<close>

type_synonym rng = "int \<Rightarrow> nat list \<Rightarrow> ndarray"

definition generate_pattern :: "rng \<Rightarrow> int list \<Rightarrow> int \<Rightarrow> error + ndarray" where
  "generate_pattern randint dims seed =
     (if list_ex (\<lambda>d. d < 0) dims then Inl ValueError
      else Inr (randint seed (map nat dims)))"

definition generate_1d_pattern :: "rng \<Rightarrow> validator \<Rightarrow> int \<Rightarrow> error + ndarray" where
  "generate_1d_pattern randint self seed = generate_pattern randint [grid_size self] seed"

definition generate_2d_pattern :: "rng \<Rightarrow> validator \<Rightarrow> int \<Rightarrow> error + ndarray" where
  "generate_2d_pattern randint self seed =
     generate_pattern randint [grid_size self, grid_size self] seed"

definition generate_3d_pattern :: "rng \<Rightarrow> validator \<Rightarrow> int \<Rightarrow> error + ndarray" where
  "generate_3d_pattern randint self seed =
     generate_pattern randint [grid_size self, grid_size self, grid_size self] seed"

text \<open>\<^verbatim>\<open>a / b if b > 0 else 0\<close>, the guarded division used for all four ratios.\<close>

definition guarded_ratio :: "real \<Rightarrow> real \<Rightarrow> real" where
  "guarded_ratio a b = (if b > 0 then a / b else 0)"

text \<open>
  The ratio, the loss and the dictionary returned by a trial; the three trial functions
  build it in the same way from the two measurements and the two patterns.
\<close>

definition make_record ::
    "int \<Rightarrow> transition \<Rightarrow> real \<times> real \<times> real \<times> real \<Rightarrow> real \<times> real \<times> real \<times> real
      \<Rightarrow> ndarray \<Rightarrow> ndarray \<Rightarrow> transition_record" where
  "make_record pid tr lower higher pattern_lower pattern_higher =
     (let ratio = guarded_ratio (phi_of higher) (phi_of lower);
          loss = (1 - ratio) * 100
      in \<lparr>pattern_id = pid, transition = tr,
          phi_lower = phi_of lower, phi_higher = phi_of higher,
          ratio_phi = ratio, loss_pct = loss,
          R_lower = R_of lower, R_higher = R_of higher,
          ratio_R = guarded_ratio (R_of higher) (R_of lower),
          S_lower = S_of lower, S_higher = S_of higher,
          ratio_S = guarded_ratio (S_of higher) (S_of lower),
          D_lower = D_of lower, D_higher = D_of higher,
          ratio_D = guarded_ratio (D_of higher) (D_of lower),
          alive_cells_lower = alive_cells pattern_lower,
          alive_cells_higher = alive_cells pattern_higher\<rparr>)"

text \<open>
  \<^verbatim>\<open>test_1d_to_2d\<close>: the pattern goes into the row \<^verbatim>\<open>grid_size // 2\<close> of a zero
  square, that is, the new axis is the first one.
\<close>

definition embed_middle_row :: "int \<Rightarrow> ndarray \<Rightarrow> error + ndarray" where
  "embed_middle_row g pattern_1d =
     (case np_zeros [g, g] of
        Inl e \<Rightarrow> Inl e
      | Inr pattern_2d \<Rightarrow> setitem_first pattern_2d (g div 2) pattern_1d)"

definition test_1d_to_2d :: "rng \<Rightarrow> validator \<Rightarrow> int \<Rightarrow> int \<Rightarrow> error + transition_record" where
  "test_1d_to_2d randint self pid seed =
     (case generate_1d_pattern randint self seed of
        Inl e \<Rightarrow> Inl e
      | Inr pattern_1d \<Rightarrow>
          let lower = calculate_phi pattern_1d
          in (case embed_middle_row (grid_size self) pattern_1d of
                Inl e \<Rightarrow> Inl e
              | Inr pattern_2d \<Rightarrow>
                  Inr (make_record pid T_1D_2D lower (calculate_phi pattern_2d)
                         pattern_1d pattern_2d)))"

text \<open>\<^verbatim>\<open>test_2d_to_3d\<close> and \<^verbatim>\<open>test_3d_to_4d\<close>: the new axis is the last one.\<close>

definition test_2d_to_3d :: "rng \<Rightarrow> validator \<Rightarrow> int \<Rightarrow> int \<Rightarrow> error + transition_record" where
  "test_2d_to_3d randint self pid seed =
     (case generate_2d_pattern randint self seed of
        Inl e \<Rightarrow> Inl e
      | Inr pattern_2d \<Rightarrow>
          let lower = calculate_phi pattern_2d
          in (case embed_last_axis [grid_size self, grid_size self] (grid_size self)
                     pattern_2d of
                Inl e \<Rightarrow> Inl e
              | Inr pattern_3d \<Rightarrow>
                  Inr (make_record pid T_2D_3D lower (calculate_phi pattern_3d)
                         pattern_2d pattern_3d)))"

definition test_3d_to_4d :: "rng \<Rightarrow> validator \<Rightarrow> int \<Rightarrow> int \<Rightarrow> error + transition_record" where
  "test_3d_to_4d randint self pid seed =
     (case generate_3d_pattern randint self seed of
        Inl e \<Rightarrow> Inl e
      | Inr pattern_3d \<Rightarrow>
          let lower = calculate_phi pattern_3d
          in (case embed_last_axis [grid_size self, grid_size self, grid_size self]
                     (grid_size self) pattern_3d of
                Inl e \<Rightarrow> Inl e
              | Inr pattern_4d \<Rightarrow>
                  Inr (make_record pid T_3D_4D lower (calculate_phi pattern_4d)
                         pattern_3d pattern_4d)))"

text \<open>
  One loop of \<^verbatim>\<open>run_all_tests\<close>: \<^verbatim>\<open>for i in range(n_patterns)\<close> with the seed
  \<open>base + i\<close>; an exception in a trial ends the run. Progress printing is left out.
\<close>

fun run_trials :: "(int \<Rightarrow> int \<Rightarrow> error + transition_record) \<Rightarrow> int \<Rightarrow> int list
    \<Rightarrow> error + transition_record list" where
  "run_trials trial base [] = Inr []"
| "run_trials trial base (i # rest) =
     (case trial i (base + i) of
        Inl e \<Rightarrow> Inl e
      | Inr result \<Rightarrow>
          (case run_trials trial base rest of
             Inl e \<Rightarrow> Inl e
           | Inr results \<Rightarrow> Inr (result # results)))"

definition run_all_tests :: "rng \<Rightarrow> validator
    \<Rightarrow> error + (transition_record list \<times> transition_record list \<times> transition_record list)" where
  "run_all_tests randint self =
     (let ids = [0 ..< nat (n_patterns self)]
      in case run_trials (test_1d_to_2d randint self) 100 (map int ids) of
           Inl e \<Rightarrow> Inl e
         | Inr r12 \<Rightarrow>
             (case run_trials (test_2d_to_3d randint self) 1000 (map int ids) of
                Inl e \<Rightarrow> Inl e
              | Inr r23 \<Rightarrow>
                  (case run_trials (test_3d_to_4d randint self) 3000 (map int ids) of
                     Inl e \<Rightarrow> Inl e
                   | Inr r34 \<Rightarrow> Inr (r12, r23, r34))))"

text \<open>
  A generator that ignores the seed and returns the all-one array of the requested shape;
  it serves to run the validator on concrete inputs.
\<close>

definition constant_rng :: rng where
  "constant_rng seed dims = np_full 1 dims"

text \<open>
  The outcome of the ratio computation as the specification states it: ratio 0 and loss
  100 when the lower-rank phi is 0, the quotient and \<open>(1 - ratio) * 100\<close> when it is
  positive.
\<close>

definition spec_ratio_policy :: "transition_record \<Rightarrow> bool" where
  "spec_ratio_policy r =
     ((phi_lower r = 0 \<longrightarrow> ratio_phi r = 0 \<and> loss_pct r = 100)
      \<and> (0 < phi_lower r \<longrightarrow>
           ratio_phi r = phi_higher r / phi_lower r \<and> loss_pct r = (1 - ratio_phi r) * 100))"

section \<open>Positions\<close>

text \<open>
  The cell at a multi-index and the list of all multi-indices of a shape, in row-major
  order. \<open>get\<close> is only used at indices inside the shape.
\<close>

fun get :: "ndarray \<Rightarrow> nat list \<Rightarrow> int" where
  "get (Cell c) idx = c"
| "get (Dim xs) [] = 0"
| "get (Dim xs) (i # idx) = (if i < length xs then get (xs ! i) idx else 0)"

fun indices :: "nat list \<Rightarrow> nat list list" where
  "indices [] = [[]]"
| "indices (n # ns) = concat (map (\<lambda>i. map ((#) i) (indices ns)) [0..<n])"

text \<open>
  The integration component as the specification words it: for each axis the number of
  positions at which the pattern differs from the pattern shifted cyclically by one
  along that axis, summed over the axes and divided by the rank times the cell count.
\<close>

definition shifted_index :: "nat list \<Rightarrow> nat \<Rightarrow> nat list \<Rightarrow> nat list" where
  "shifted_index sh axis idx = idx[axis := (idx ! axis + sh ! axis - 1) mod (sh ! axis)]"

definition spec_differing :: "nat list \<Rightarrow> ndarray \<Rightarrow> nat \<Rightarrow> nat" where
  "spec_differing sh pattern axis =
     length (filter (\<lambda>idx. get pattern idx \<noteq> get pattern (shifted_index sh axis idx))
               (indices sh))"

definition spec_S :: "nat list \<Rightarrow> ndarray \<Rightarrow> real" where
  "spec_S sh pattern =
     real (sum_list (map (spec_differing sh pattern) [0..<length sh]))
       / real (length sh * prod_list sh)"

section \<open>The checkerboard of the sanity test\<close>

text \<open>
  \<^verbatim>\<open>grid_checker\<close> of test_edge_cases: a 20 by 20 zero array in which the cells with
  even row and even column, and those with odd row and odd column, are set to 1.
\<close>

definition grid_checker :: ndarray where
  "grid_checker =
     Dim (map (\<lambda>i. Dim (map (\<lambda>j. Cell (if (even i \<and> even j) \<or> (odd i \<and> odd j) then 1 else 0))
                          [0..<20::nat]))
              [0..<20::nat])"

section \<open>Degenerate patterns\<close>

lemma flatten_np_full: "flatten (np_full c sh) = replicate (prod_list sh) c"
proof (induction sh)
  case Nil
  show ?case by simp
next
  case (Cons n ns)
  have "concat (replicate n (replicate (prod_list ns) c)) = replicate (n * prod_list ns) c"
    by (induction n) (simp_all add: replicate_add)
  with Cons show ?case by (simp add: map_replicate_const)
qed

lemma sum_list_replicate_int: "sum_list (replicate n (c::int)) = int n * c"
  by (induction n) (simp_all add: algebra_simps)

text \<open>
  C1. A pattern whose count of set cells is 0 or equals the number of cells gets
  (0, 0, 0, 0); in particular the all-zero and the all-one array of every shape do.
\<close>

theorem calculate_phi_degenerate:
  "(sum_list (flatten pattern) = 0 \<or> sum_list (flatten pattern) = int (length (flatten pattern))
      \<longrightarrow> calculate_phi pattern = (0, 0, 0, 0))
   \<and> calculate_phi (np_full 0 sh) = (0, 0, 0, 0)
   \<and> calculate_phi (np_full 1 sh) = (0, 0, 0, 0)"
  by (simp add: calculate_phi_def Let_def flatten_np_full sum_list_replicate_int)

theorem calculate_phi_degenerate_witness:
  "calculate_phi (Dim [Dim [Cell 1, Cell 1], Dim [Cell 1, Cell 1]]) = (0, 0, 0, 0)
   \<and> calculate_phi (Dim [Cell 0, Cell 0, Cell 0]) = (0, 0, 0, 0)"
  using calculate_phi_degenerate [of "Dim [Dim [Cell 1, Cell 1], Dim [Cell 1, Cell 1]]"]
    calculate_phi_degenerate [of "Dim [Cell 0, Cell 0, Cell 0]"]
  by simp

section \<open>Bounds on the components\<close>

lemma entropy_pos:
  fixes p :: real
  assumes "0 < p" "p < 1"
  shows "0 < - (p * log 2 p + (1 - p) * log 2 (1 - p))"
proof -
  have "log 2 p < 0" using assms by simp
  then have a: "p * log 2 p < 0" using assms by (simp add: mult_pos_neg)
  have "log 2 (1 - p) < 0" using assms by simp
  then have b: "(1 - p) * log 2 (1 - p) < 0" using assms by (simp add: mult_pos_neg)
  from a b show ?thesis by linarith
qed

lemma ln_two_times_bound:
  fixes q :: real
  assumes "0 < q"
  shows "- (q * ln (2 * q)) \<le> 1 / 2 - q"
proof -
  have "ln (1 / (2 * q)) \<le> 1 / (2 * q) - 1"
    using assms by (intro ln_le_minus_one) simp
  then have "- ln (2 * q) \<le> 1 / (2 * q) - 1"
    using assms by (simp add: ln_div)
  then have "q * (- ln (2 * q)) \<le> q * (1 / (2 * q) - 1)"
    using assms by (intro mult_left_mono) simp_all
  also have "q * (1 / (2 * q) - 1) = 1 / 2 - q"
    using assms by (simp add: field_simps)
  finally show ?thesis by simp
qed

lemma entropy_le_one:
  fixes p :: real
  assumes "0 < p" "p < 1"
  shows "- (p * log 2 p + (1 - p) * log 2 (1 - p)) \<le> 1"
proof -
  have a: "- (p * ln (2 * p)) \<le> 1 / 2 - p"
    using assms by (intro ln_two_times_bound)
  have b: "- ((1 - p) * ln (2 * (1 - p))) \<le> 1 / 2 - (1 - p)"
    using assms by (intro ln_two_times_bound) simp
  have lp: "ln (2 * p) = ln 2 + ln p" using assms by (simp add: ln_mult_pos)
  have lq: "ln (2 * (1 - p)) = ln 2 + ln (1 - p)" using assms by (intro ln_mult_pos) simp_all
  from a b have "- (p * ln (2 * p)) - ((1 - p) * ln (2 * (1 - p))) \<le> 0" by linarith
  then have "- (p * ln p + (1 - p) * ln (1 - p)) \<le> ln 2"
    unfolding lp lq by (simp add: algebra_simps)
  moreover have "0 < ln (2::real)" by simp
  ultimately have "- (p * ln p + (1 - p) * ln (1 - p)) / ln 2 \<le> 1"
    by (simp add: field_simps)
  moreover have "- (p * log 2 p + (1 - p) * log 2 (1 - p)) = - (p * ln p + (1 - p) * ln (1 - p)) / ln 2"
    by (simp add: log_def field_simps)
  ultimately show ?thesis by simp
qed

lemma binary_sum_bounds:
  assumes "list_all (\<lambda>c. c = 0 \<or> c = 1) (cs :: int list)"
  shows "0 \<le> sum_list cs \<and> sum_list cs \<le> int (length cs)"
  using assms by (induction cs) auto

lemma fold_integration_step:
  "fold (integration_step pattern) axes (t, e) =
     (t + sum_list (map (\<lambda>axis. neq_count pattern (np_roll axis pattern)) axes),
      e + length axes * size_nd pattern)"
  by (induction axes arbitrary: t e) (simp_all add: integration_step_def algebra_simps)

lemma neq_count_le: "neq_count a b \<le> size_nd a"
proof -
  have "neq_count a b \<le> length (zip (flatten a) (flatten b))"
    unfolding neq_count_def by (rule length_filter_le)
  then show ?thesis by (simp add: size_nd_def)
qed

lemma sum_neq_count_le:
  "sum_list (map (\<lambda>axis. neq_count pattern (np_roll axis pattern)) axes) \<le> length axes * size_nd pattern"
  by (induction axes) (simp_all add: neq_count_le add_mono)

lemma calculate_integration_bounds:
  "0 \<le> calculate_integration pattern \<and> calculate_integration pattern \<le> 1"
proof -
  let ?t = "sum_list (map (\<lambda>axis. neq_count pattern (np_roll axis pattern)) [0..<ndim pattern])"
  let ?e = "ndim pattern * size_nd pattern"
  have "?t \<le> ?e" using sum_neq_count_le [of pattern "[0..<ndim pattern]"] by simp
  then have "real ?t \<le> real ?e" by (rule iffD2 [OF of_nat_le_iff])
  then show ?thesis
    by (simp add: calculate_integration_def fold_integration_step)
qed


lemma calculate_phi_degenerate_eq:
  "degenerate pattern \<Longrightarrow> calculate_phi pattern = (0, 0, 0, 0)"
  by (auto simp: calculate_phi_def degenerate_def alive_cells_def size_nd_def Let_def)

lemma calculate_phi_regular_eq:
  assumes "\<not> degenerate pattern"
  shows "calculate_phi pattern =
    (let p = real_of_int (alive_cells pattern) / real (size_nd pattern);
         S = calculate_integration pattern;
         D = - (p * log 2 p + (1 - p) * log 2 (1 - p))
     in (p * S + D, p, S, D))"
  using assms
  by (simp add: calculate_phi_def degenerate_def alive_cells_def size_nd_def Let_def)

lemma alive_fraction_bounds:
  assumes "binary pattern" "\<not> degenerate pattern"
  shows "0 < real_of_int (alive_cells pattern) / real (size_nd pattern)"
    and "real_of_int (alive_cells pattern) / real (size_nd pattern) < 1"
proof -
  have b: "0 \<le> alive_cells pattern \<and> alive_cells pattern \<le> int (size_nd pattern)"
    using assms(1) binary_sum_bounds [of "flatten pattern"]
    by (simp add: binary_def alive_cells_def size_nd_def)
  with assms(2) have pos: "0 < alive_cells pattern" and lt: "alive_cells pattern < int (size_nd pattern)"
    by (auto simp: degenerate_def)
  then have n: "0 < size_nd pattern" by linarith
  show "0 < real_of_int (alive_cells pattern) / real (size_nd pattern)"
    using pos n by simp
  have "real_of_int (alive_cells pattern) < real (size_nd pattern)"
    using lt by (metis of_int_less_iff of_int_of_nat_eq)
  then show "real_of_int (alive_cells pattern) / real (size_nd pattern) < 1"
    using n by simp
qed

lemma binary_sum_zero_iff:
  assumes "list_all (\<lambda>c. c = 0 \<or> c = 1) (cs :: int list)"
  shows "sum_list cs = 0 \<longleftrightarrow> list_all (\<lambda>x. x = 0) cs"
  using assms
proof (induction cs)
  case Nil
  show ?case by simp
next
  case (Cons c cs)
  then have "0 \<le> sum_list cs" using binary_sum_bounds [of cs] by simp
  with Cons show ?case by auto
qed

lemma binary_sum_full_iff:
  assumes "list_all (\<lambda>c. c = 0 \<or> c = 1) (cs :: int list)"
  shows "sum_list cs = int (length cs) \<longleftrightarrow> list_all (\<lambda>x. x = 1) cs"
  using assms
proof (induction cs)
  case Nil
  show ?case by simp
next
  case (Cons c cs)
  then have "sum_list cs \<le> int (length cs)" using binary_sum_bounds [of cs] by simp
  with Cons show ?case by auto
qed

lemma degenerate_iff_uniform:
  "binary pattern \<Longrightarrow> degenerate pattern \<longleftrightarrow> uniform 0 pattern \<or> uniform 1 pattern"
  by (simp add: degenerate_def uniform_def alive_cells_def size_nd_def binary_def
      binary_sum_zero_iff binary_sum_full_iff)

text \<open>
  C2. For a pattern whose count of set cells lies strictly between 0 and the number of
  cells, the returned components satisfy phi = R * S + D. Over the reals this is an
  equality; the source computes phi by this very expression.
\<close>

theorem phi_identity:
  assumes "0 < alive_cells pattern" and "alive_cells pattern < int (size_nd pattern)"
  shows "phi_of (calculate_phi pattern) =
         R_of (calculate_phi pattern) * S_of (calculate_phi pattern) + D_of (calculate_phi pattern)"
proof -
  have "\<not> degenerate pattern" using assms by (simp add: degenerate_def)
  then show ?thesis
    by (simp add: calculate_phi_regular_eq Let_def phi_of_def R_of_def S_of_def D_of_def)
qed

theorem phi_identity_witness:
  "0 < alive_cells (Dim [Cell 1, Cell 0])
   \<and> alive_cells (Dim [Cell 1, Cell 0]) < int (size_nd (Dim [Cell 1, Cell 0]))
   \<and> phi_of (calculate_phi (Dim [Cell 1, Cell 0])) =
       R_of (calculate_phi (Dim [Cell 1, Cell 0])) * S_of (calculate_phi (Dim [Cell 1, Cell 0]))
         + D_of (calculate_phi (Dim [Cell 1, Cell 0]))"
  using phi_identity [of "Dim [Cell 1, Cell 0]"]
  by (simp add: alive_cells_def size_nd_def)

text \<open>
  C6. For every binary pattern each of R, S and D returned by calculate_phi lies in the
  closed interval from 0 to 1 (the empty pattern included: it is degenerate).
\<close>

theorem components_in_unit_interval:
  assumes "binary pattern"
  shows "0 \<le> R_of (calculate_phi pattern) \<and> R_of (calculate_phi pattern) \<le> 1
       \<and> 0 \<le> S_of (calculate_phi pattern) \<and> S_of (calculate_phi pattern) \<le> 1
       \<and> 0 \<le> D_of (calculate_phi pattern) \<and> D_of (calculate_phi pattern) \<le> 1"
proof (cases "degenerate pattern")
  case True
  then show ?thesis
    by (simp add: calculate_phi_degenerate_eq R_of_def S_of_def D_of_def)
next
  case False
  let ?p = "real_of_int (alive_cells pattern) / real (size_nd pattern)"
  have p: "0 < ?p" "?p < 1" using assms False by (rule alive_fraction_bounds)+
  have d0: "0 < - (?p * log 2 ?p + (1 - ?p) * log 2 (1 - ?p))" using p by (rule entropy_pos)
  have d1: "- (?p * log 2 ?p + (1 - ?p) * log 2 (1 - ?p)) \<le> 1" using p by (rule entropy_le_one)
  have s: "0 \<le> calculate_integration pattern \<and> calculate_integration pattern \<le> 1"
    by (rule calculate_integration_bounds)
  have r: "R_of (calculate_phi pattern) = ?p"
    and s': "S_of (calculate_phi pattern) = calculate_integration pattern"
    and d: "D_of (calculate_phi pattern) = - (?p * log 2 ?p + (1 - ?p) * log 2 (1 - ?p))"
    using False by (simp_all add: calculate_phi_regular_eq Let_def R_of_def S_of_def D_of_def)
  show ?thesis unfolding r s' d using p d0 d1 s by simp
qed

theorem components_in_unit_interval_witness:
  "binary (Dim [Dim [Cell 1, Cell 0], Dim [Cell 0, Cell 0]])
   \<and> 0 \<le> R_of (calculate_phi (Dim [Dim [Cell 1, Cell 0], Dim [Cell 0, Cell 0]]))
   \<and> R_of (calculate_phi (Dim [Dim [Cell 1, Cell 0], Dim [Cell 0, Cell 0]])) \<le> 1
   \<and> 0 \<le> S_of (calculate_phi (Dim [Dim [Cell 1, Cell 0], Dim [Cell 0, Cell 0]]))
   \<and> S_of (calculate_phi (Dim [Dim [Cell 1, Cell 0], Dim [Cell 0, Cell 0]])) \<le> 1
   \<and> 0 \<le> D_of (calculate_phi (Dim [Dim [Cell 1, Cell 0], Dim [Cell 0, Cell 0]]))
   \<and> D_of (calculate_phi (Dim [Dim [Cell 1, Cell 0], Dim [Cell 0, Cell 0]])) \<le> 1"
  using components_in_unit_interval [of "Dim [Dim [Cell 1, Cell 0], Dim [Cell 0, Cell 0]]"]
  by (simp add: binary_def)

text \<open>
  C10. For a binary pattern, phi is 0 exactly when the pattern is degenerate. Otherwise
  D is strictly positive and R and S are non-negative, so phi is strictly positive.
  Hence the test \<open>phi_lower > 0\<close> of a trial fails, and the ratio falls back to 0,
  exactly when the lower-rank pattern is uniformly 0 or uniformly 1.
\<close>

theorem phi_zero_iff_degenerate:
  assumes "binary pattern"
  shows "(phi_of (calculate_phi pattern) = 0 \<longleftrightarrow> degenerate pattern)
       \<and> (\<not> degenerate pattern \<longrightarrow>
            0 < D_of (calculate_phi pattern) \<and> 0 \<le> R_of (calculate_phi pattern)
          \<and> 0 \<le> S_of (calculate_phi pattern) \<and> 0 < phi_of (calculate_phi pattern))
       \<and> (\<not> 0 < phi_of (calculate_phi pattern) \<longleftrightarrow> uniform 0 pattern \<or> uniform 1 pattern)"
proof (cases "degenerate pattern")
  case True
  then show ?thesis using assms
    by (simp add: calculate_phi_degenerate_eq phi_of_def degenerate_iff_uniform)
next
  case False
  let ?p = "real_of_int (alive_cells pattern) / real (size_nd pattern)"
  let ?D = "- (?p * log 2 ?p + (1 - ?p) * log 2 (1 - ?p))"
  have p: "0 < ?p" "?p < 1" using assms False by (rule alive_fraction_bounds)+
  have d0: "0 < ?D" using p by (rule entropy_pos)
  have s: "0 \<le> calculate_integration pattern"
    using calculate_integration_bounds [of pattern] by simp
  have rs: "0 \<le> ?p * calculate_integration pattern"
    using p(1) s by (intro mult_nonneg_nonneg) (rule less_imp_le)
  have r: "R_of (calculate_phi pattern) = ?p"
    and s': "S_of (calculate_phi pattern) = calculate_integration pattern"
    and d: "D_of (calculate_phi pattern) = ?D"
    and f: "phi_of (calculate_phi pattern) = ?p * calculate_integration pattern + ?D"
    using False
    by (simp_all add: calculate_phi_regular_eq Let_def R_of_def S_of_def D_of_def phi_of_def)
  have "0 < ?p * calculate_integration pattern + ?D" using rs d0 by linarith
  then show ?thesis unfolding r s' d f
    using False p d0 s assms by (simp add: degenerate_iff_uniform)
qed

theorem phi_zero_iff_degenerate_witness:
  "binary (Dim [Cell 0, Cell 1, Cell 1])
   \<and> \<not> degenerate (Dim [Cell 0, Cell 1, Cell 1])
   \<and> phi_of (calculate_phi (Dim [Cell 0, Cell 1, Cell 1])) \<noteq> 0
   \<and> 0 < D_of (calculate_phi (Dim [Cell 0, Cell 1, Cell 1]))
   \<and> 0 < phi_of (calculate_phi (Dim [Cell 0, Cell 1, Cell 1]))
   \<and> \<not> uniform 0 (Dim [Cell 0, Cell 1, Cell 1])
   \<and> \<not> uniform 1 (Dim [Cell 0, Cell 1, Cell 1])"
  using phi_zero_iff_degenerate [of "Dim [Cell 0, Cell 1, Cell 1]"]
  by (simp add: binary_def degenerate_def alive_cells_def size_nd_def uniform_def)

section \<open>Embedding\<close>

lemma has_shape_np_full: "has_shape sh (np_full c sh)"
  by (induction sh) (simp_all add: list_all_length)

lemma assign_last_list_replicate:
  "length ss = n \<Longrightarrow> assign_last_list j (replicate n z) ss = map (assign_last j z) ss"
  by (induction ss arbitrary: n) auto

lemma flatten_cells: "concat (map (flatten \<circ> Cell) cs) = cs"
  by (induction cs) simp_all

lemma replicate_cell_update:
  "(replicate m (Cell 0))[j := Cell c] = map Cell ((replicate m 0)[j := c])"
  by (simp add: map_update)

lemma np_full_snoc:
  "np_full c ((n # ns) @ [m]) = Dim (replicate n (np_full c (ns @ [m])))"
  by simp

lemma flatten_assign_last:
  "has_shape sh src \<Longrightarrow>
   flatten (assign_last j (np_full 0 (sh @ [m])) src) =
     concat (map (\<lambda>c. (replicate m 0)[j := c]) (flatten src))"
proof (induction sh arbitrary: src)
  case Nil
  then obtain c where "src = Cell c" by (cases src) simp_all
  then show ?case
    by (simp add: replicate_cell_update flatten_cells del: map_replicate)
next
  case (Cons n ns)
  then obtain ss where src: "src = Dim ss" and len: "length ss = n"
    and sub: "list_all (has_shape ns) ss"
    by (cases src) simp_all
  have ih: "\<And>s. s \<in> set ss \<Longrightarrow>
      flatten (assign_last j (np_full 0 (ns @ [m])) s) =
        concat (map (\<lambda>c. (replicate m 0)[j := c]) (flatten s))"
    using Cons.IH sub by (simp add: list_all_iff)
  have "flatten (assign_last j (np_full 0 ((n # ns) @ [m])) src) =
      concat (map (\<lambda>s. flatten (assign_last j (np_full 0 (ns @ [m])) s)) ss)"
    using len by (simp add: src assign_last_list_replicate comp_def)
  also have "\<dots> = concat (map (\<lambda>s. concat (map (\<lambda>c. (replicate m 0)[j := c]) (flatten s))) ss)"
    using ih by (simp cong: map_cong)
  also have "\<dots> = concat (map (\<lambda>c. (replicate m 0)[j := c]) (flatten src))"
    by (simp add: src map_concat comp_def) (induction ss, simp_all)
  finally show ?case .
qed

lemma sum_list_update_zero:
  "j < m \<Longrightarrow> sum_list ((replicate m (0::int))[j := c]) = c"
  by (induction m arbitrary: j) (auto split: nat.splits simp: sum_list_replicate_int)

lemma sum_list_concat_blocks:
  "j < m \<Longrightarrow> sum_list (concat (map (\<lambda>c. (replicate m (0::int))[j := c]) cs)) = sum_list cs"
  by (induction cs) (simp_all add: sum_list_update_zero)

lemma alive_assign_last:
  "has_shape sh src \<Longrightarrow> j < m \<Longrightarrow>
   alive_cells (assign_last j (np_full 0 (sh @ [m])) src) = alive_cells src"
  by (simp add: alive_cells_def flatten_assign_last sum_list_concat_blocks)

lemma has_shape_assign_last:
  "has_shape sh src \<Longrightarrow> has_shape (sh @ [m]) (assign_last j (np_full 0 (sh @ [m])) src)"
proof (induction sh arbitrary: src)
  case Nil
  then obtain c where "src = Cell c" by (cases src) simp_all
  then show ?case by (auto simp: list_all_iff dest!: set_update_subset_insert [THEN subsetD])
next
  case (Cons n ns)
  then obtain ss where src: "src = Dim ss" and len: "length ss = n"
    and sub: "list_all (has_shape ns) ss"
    by (cases src) simp_all
  show ?case using Cons.IH sub len
    by (simp add: src assign_last_list_replicate list_all_iff)
qed

lemma indices_Cons_iff:
  "idx \<in> set (indices (n # ns)) \<longleftrightarrow> (\<exists>i rest. idx = i # rest \<and> i < n \<and> rest \<in> set (indices ns))"
  by auto

lemma get_assign_last:
  "has_shape sh src \<Longrightarrow> idx \<in> set (indices sh) \<Longrightarrow> j < m \<Longrightarrow> k < m \<Longrightarrow>
   get (assign_last j (np_full 0 (sh @ [m])) src) (idx @ [k]) = (if k = j then get src idx else 0)"
proof (induction sh arbitrary: src idx)
  case Nil
  then obtain c where "src = Cell c" by (cases src) simp_all
  with Nil show ?case by (simp add: nth_list_update)
next
  case (Cons n ns)
  then obtain ss where src: "src = Dim ss" and len: "length ss = n"
    and sub: "list_all (has_shape ns) ss"
    by (cases src) simp_all
  from Cons.prems(2) obtain i rest where idx: "idx = i # rest" and i: "i < n"
    and rest: "rest \<in> set (indices ns)"
    unfolding indices_Cons_iff by blast
  have "has_shape ns (ss ! i)" using sub i len by (simp add: list_all_length)
  then have "get (assign_last j (np_full 0 (ns @ [m])) (ss ! i)) (rest @ [k]) =
      (if k = j then get (ss ! i) rest else 0)"
    using rest Cons.prems(3,4) by (rule Cons.IH)
  then show ?case using i len
    by (simp add: src idx assign_last_list_replicate)
qed


lemma ndim_has_shape: "has_shape sh p \<Longrightarrow> 0 \<notin> set sh \<Longrightarrow> ndim p = length sh"
proof (induction sh arbitrary: p)
  case Nil
  then show ?case by (cases p) simp_all
next
  case (Cons n ns)
  then obtain xs where p: "p = Dim xs" and len: "length xs = n"
    and sub: "list_all (has_shape ns) xs"
    by (cases p) simp_all
  from Cons.prems(2) len obtain y ys where xs: "xs = y # ys" by (cases xs) auto
  with sub have "has_shape ns y" by simp
  with Cons have "ndim y = length ns" by simp
  then show ?case by (simp add: p xs)
qed

lemma np_zeros_nonneg:
  "np_zeros (map int sh @ [m]) =
     (if m < 0 then Inl ValueError else Inr (np_full 0 (sh @ [nat m])))"
  by (simp add: np_zeros_def list_ex_iff comp_def)

lemma embed_last_axis_ok:
  "1 \<le> m \<Longrightarrow>
   embed_last_axis (map int sh) m src =
     Inr (assign_last (nat (m div 2)) (np_full 0 (sh @ [nat m])) src)"
  by (simp add: embed_last_axis_def np_zeros_nonneg setitem_last_def Let_def)

lemma embed_last_axis_negative:
  "m < 0 \<Longrightarrow> embed_last_axis (map int sh) m src = Inl ValueError"
  by (simp add: embed_last_axis_def np_zeros_nonneg)

lemma embed_last_axis_zero:
  "embed_last_axis (map int sh) 0 src = Inl IndexError"
  by (simp add: embed_last_axis_def np_zeros_nonneg setitem_last_def)

lemma midpoint_in_range: "1 \<le> (m::int) \<Longrightarrow> nat (m div 2) < nat m"
  by (simp add: nat_less_iff)

lemma shape_of_rank1: "has_shape [x] p \<Longrightarrow> shape_of p = [x]"
proof -
  assume h: "has_shape [x] p"
  then obtain xs where p: "p = Dim xs" and len: "length xs = x"
    and sub: "list_all (has_shape []) xs"
    by (cases p) simp_all
  show ?thesis
  proof (cases xs)
    case Nil
    with p len show ?thesis by simp
  next
    case (Cons y ys)
    with sub have "has_shape [] y" by simp
    then obtain c where "y = Cell c" by (cases y) simp_all
    with Cons p len show ?thesis by auto
  qed
qed

lemma embed_1d_to_2d_eq:
  "has_shape [x] p \<Longrightarrow> embed_1d_to_2d p m = embed_last_axis [int x] m p"
  by (simp add: embed_1d_to_2d_def shape_of_rank1)

lemma embed_middle_row_ok:
  "1 \<le> g \<Longrightarrow>
   embed_middle_row g p =
     Inr (Dim ((replicate (nat g) (np_full 0 [nat g]))[nat (g div 2) := p]))"
  using midpoint_in_range [of g]
  by (simp add: embed_middle_row_def np_zeros_def setitem_first_def Let_def
      pos_imp_zdiv_nonneg_iff nat_less_iff)

lemma embed_middle_row_negative: "g < 0 \<Longrightarrow> embed_middle_row g p = Inl ValueError"
  by (simp add: embed_middle_row_def np_zeros_def)

lemma embed_middle_row_zero: "embed_middle_row 0 p = Inl IndexError"
  by (simp add: embed_middle_row_def np_zeros_def setitem_first_def)

lemma has_shape_middle_row:
  "has_shape [n] p \<Longrightarrow> has_shape [n, n] (Dim ((replicate n (np_full 0 [n]))[i := p]))"
  by (auto simp: list_all_iff dest!: set_update_subset_insert [THEN subsetD])

lemma get_middle_row:
  "i < n \<Longrightarrow> r < n \<Longrightarrow> k < n \<Longrightarrow> has_shape [n] p \<Longrightarrow>
   get (Dim ((replicate n (np_full 0 [n]))[i := p])) [r, k] = (if r = i then get p [k] else 0)"
  by (simp add: nth_list_update)

lemma sum_list_concat_map:
  "sum_list (concat (map f xs)) = sum_list (map (\<lambda>x. sum_list (f x :: int list)) xs)"
  by (induction xs) simp_all

lemma alive_middle_row:
  assumes "i < n"
  shows "alive_cells (Dim ((replicate n (np_full 0 [m]))[i := p])) = alive_cells p"
proof -
  let ?ds = "replicate n (np_full 0 [m])"
  have z: "map (sum_list \<circ> flatten) ?ds = replicate n 0"
    by (simp add: sum_list_replicate_int)
  have "alive_cells (Dim (?ds[i := p])) = sum_list (map (sum_list \<circ> flatten) (?ds[i := p]))"
    by (simp add: alive_cells_def sum_list_concat_map comp_def)
  also have "\<dots> = sum_list ((replicate n 0)[i := sum_list (flatten p)])"
    unfolding map_update z by simp
  also have "\<dots> = sum_list (flatten p)" using assms by (rule sum_list_update_zero)
  finally show ?thesis by (simp add: alive_cells_def)
qed

section \<open>Embedding functions and trials\<close>

lemma embed_last_axis_spec:
  assumes "has_shape sh P" and "1 \<le> m"
  shows "\<exists>Q. embed_last_axis (map int sh) m P = Inr Q
           \<and> has_shape (sh @ [nat m]) Q
           \<and> (0 \<notin> set sh \<longrightarrow> ndim Q = Suc (ndim P))
           \<and> (\<forall>idx \<in> set (indices sh). \<forall>k < nat m.
                 get Q (idx @ [k]) = (if k = nat (m div 2) then get P idx else 0))"
proof -
  let ?Q = "assign_last (nat (m div 2)) (np_full 0 (sh @ [nat m])) P"
  have mid: "nat (m div 2) < nat m" using assms(2) by (rule midpoint_in_range)
  have e: "embed_last_axis (map int sh) m P = Inr ?Q" using assms(2) by (rule embed_last_axis_ok)
  have s: "has_shape (sh @ [nat m]) ?Q" using assms(1) by (rule has_shape_assign_last)
  have r: "0 \<notin> set sh \<longrightarrow> ndim ?Q = Suc (ndim P)"
  proof
    assume z: "0 \<notin> set sh"
    then have "0 \<notin> set (sh @ [nat m])" using assms(2) by simp
    with s have "ndim ?Q = length (sh @ [nat m])" by (rule ndim_has_shape)
    moreover have "ndim P = length sh" using assms(1) z by (rule ndim_has_shape)
    ultimately show "ndim ?Q = Suc (ndim P)" by simp
  qed
  have g: "\<forall>idx \<in> set (indices sh). \<forall>k < nat m.
      get ?Q (idx @ [k]) = (if k = nat (m div 2) then get P idx else 0)"
    using assms(1) mid by (simp add: get_assign_last)
  from e s r g show ?thesis by blast
qed

lemma embed_middle_row_spec:
  assumes "has_shape [nat g] P" and "1 \<le> g"
  shows "\<exists>Q. embed_middle_row g P = Inr Q
           \<and> has_shape [nat g, nat g] Q
           \<and> ndim Q = Suc (ndim P)
           \<and> (\<forall>i < nat g. \<forall>k < nat g.
                 get Q [i, k] = (if i = nat (g div 2) then get P [k] else 0))"
proof -
  let ?Q = "Dim ((replicate (nat g) (np_full 0 [nat g]))[nat (g div 2) := P])"
  have mid: "nat (g div 2) < nat g" using assms(2) by (rule midpoint_in_range)
  have pos: "0 \<notin> set [nat g]" "0 \<notin> set [nat g, nat g]" using assms(2) by simp_all
  have e: "embed_middle_row g P = Inr ?Q" using assms(2) by (rule embed_middle_row_ok)
  have s: "has_shape [nat g, nat g] ?Q" using assms(1) by (rule has_shape_middle_row)
  have "ndim ?Q = length [nat g, nat g]" using s pos(2) by (rule ndim_has_shape)
  moreover have "ndim P = length [nat g]" using assms(1) pos(1) by (rule ndim_has_shape)
  ultimately have r: "ndim ?Q = Suc (ndim P)" by simp
  have g: "\<forall>i < nat g. \<forall>k < nat g.
      get ?Q [i, k] = (if i = nat (g div 2) then get P [k] else 0)"
    using mid assms(1) by (simp add: get_middle_row)
  from e s r g show ?thesis by blast
qed

lemma embed_1d_to_2d_store_spec:
  assumes "a < length store" and "has_shape [x] (store ! a)" and "1 \<le> m"
  shows "\<exists>store' b. embed_1d_to_2d_store store a m = Inr (store', b)
           \<and> b = length store
           \<and> length store' = Suc (length store)
           \<and> (\<forall>k < length store. store' ! k = store ! k)
           \<and> embed_1d_to_2d (store ! a) m = Inr (store' ! b)"
proof -
  define Z where "Z = np_full 0 [x, nat m]"
  define Q where "Q = assign_last (nat (m div 2)) Z (store ! a)"
  have z: "np_zeros [int x, m] = Inr Z"
    using assms(3) np_zeros_nonneg [of "[x]" m] by (simp add: Z_def)
  have w: "setitem_last m Z (m div 2) (store ! a) = Inr Q"
    using assms(3) by (simp add: setitem_last_def Let_def Q_def)
  have e: "embed_1d_to_2d_store store a m = Inr (store @ [Q], length store)"
    using assms(1)
    by (simp add: embed_1d_to_2d_store_def shape_of_rank1 [OF assms(2)] z Let_def
        nth_append w)
  have p: "embed_1d_to_2d (store ! a) m = Inr Q"
    using embed_last_axis_ok [OF assms(3), of "[x]" "store ! a"]
    by (simp add: embed_1d_to_2d_eq [OF assms(2)] Q_def Z_def)
  show ?thesis using e p by (simp add: nth_append)
qed

lemma make_record_fields:
  "phi_lower (make_record pid tr lower higher p q) = phi_of lower"
  "phi_higher (make_record pid tr lower higher p q) = phi_of higher"
  "ratio_phi (make_record pid tr lower higher p q) = guarded_ratio (phi_of higher) (phi_of lower)"
  "loss_pct (make_record pid tr lower higher p q) =
     (1 - guarded_ratio (phi_of higher) (phi_of lower)) * 100"
  "alive_cells_lower (make_record pid tr lower higher p q) = alive_cells p"
  "alive_cells_higher (make_record pid tr lower higher p q) = alive_cells q"
  by (simp_all add: make_record_def Let_def)

lemma generate_pattern_nonneg:
  "generate_pattern randint (map int sh) seed = Inr (randint seed sh)"
  by (simp add: generate_pattern_def list_ex_iff comp_def)

lemma test_1d_to_2d_ok:
  assumes "1 \<le> grid_size self"
  shows "test_1d_to_2d randint self pid seed =
    Inr (make_record pid T_1D_2D
          (calculate_phi (randint seed [nat (grid_size self)]))
          (calculate_phi (Dim ((replicate (nat (grid_size self)) (np_full 0 [nat (grid_size self)]))
                                 [nat (grid_size self div 2) := randint seed [nat (grid_size self)]])))
          (randint seed [nat (grid_size self)])
          (Dim ((replicate (nat (grid_size self)) (np_full 0 [nat (grid_size self)]))
                  [nat (grid_size self div 2) := randint seed [nat (grid_size self)]])))"
proof -
  have g: "generate_1d_pattern randint self seed = Inr (randint seed [nat (grid_size self)])"
    using assms generate_pattern_nonneg [of randint "[nat (grid_size self)]" seed]
    by (simp add: generate_1d_pattern_def)
  show ?thesis
    by (simp add: test_1d_to_2d_def g embed_middle_row_ok [OF assms] Let_def del: np_full.simps)
qed

lemma test_2d_to_3d_ok:
  assumes "1 \<le> grid_size self"
  shows "test_2d_to_3d randint self pid seed =
    Inr (make_record pid T_2D_3D
          (calculate_phi (randint seed [nat (grid_size self), nat (grid_size self)]))
          (calculate_phi (assign_last (nat (grid_size self div 2))
              (np_full 0 ([nat (grid_size self), nat (grid_size self)] @ [nat (grid_size self)]))
              (randint seed [nat (grid_size self), nat (grid_size self)])))
          (randint seed [nat (grid_size self), nat (grid_size self)])
          (assign_last (nat (grid_size self div 2))
              (np_full 0 ([nat (grid_size self), nat (grid_size self)] @ [nat (grid_size self)]))
              (randint seed [nat (grid_size self), nat (grid_size self)])))"
proof -
  let ?sh = "[nat (grid_size self), nat (grid_size self)]"
  have d: "[grid_size self, grid_size self] = map int ?sh" using assms by simp
  have g: "generate_2d_pattern randint self seed = Inr (randint seed ?sh)"
    unfolding generate_2d_pattern_def d by (rule generate_pattern_nonneg)
  show ?thesis
    unfolding test_2d_to_3d_def g d embed_last_axis_ok [OF assms]
    by (simp add: Let_def del: np_full.simps)
qed

lemma test_3d_to_4d_ok:
  assumes "1 \<le> grid_size self"
  shows "test_3d_to_4d randint self pid seed =
    Inr (make_record pid T_3D_4D
          (calculate_phi (randint seed [nat (grid_size self), nat (grid_size self), nat (grid_size self)]))
          (calculate_phi (assign_last (nat (grid_size self div 2))
              (np_full 0 ([nat (grid_size self), nat (grid_size self), nat (grid_size self)]
                           @ [nat (grid_size self)]))
              (randint seed [nat (grid_size self), nat (grid_size self), nat (grid_size self)])))
          (randint seed [nat (grid_size self), nat (grid_size self), nat (grid_size self)])
          (assign_last (nat (grid_size self div 2))
              (np_full 0 ([nat (grid_size self), nat (grid_size self), nat (grid_size self)]
                           @ [nat (grid_size self)]))
              (randint seed [nat (grid_size self), nat (grid_size self), nat (grid_size self)])))"
proof -
  let ?sh = "[nat (grid_size self), nat (grid_size self), nat (grid_size self)]"
  have d: "[grid_size self, grid_size self, grid_size self] = map int ?sh" using assms by simp
  have g: "generate_3d_pattern randint self seed = Inr (randint seed ?sh)"
    unfolding generate_3d_pattern_def d by (rule generate_pattern_nonneg)
  show ?thesis
    unfolding test_3d_to_4d_def g d embed_last_axis_ok [OF assms]
    by (simp add: Let_def del: np_full.simps)
qed

lemma trial_fails_negative:
  assumes "grid_size self < 0"
  shows "test_1d_to_2d randint self pid seed = Inl ValueError"
    and "test_2d_to_3d randint self pid seed = Inl ValueError"
    and "test_3d_to_4d randint self pid seed = Inl ValueError"
  using assms
  by (simp_all add: test_1d_to_2d_def test_2d_to_3d_def test_3d_to_4d_def
      generate_1d_pattern_def generate_2d_pattern_def generate_3d_pattern_def
      generate_pattern_def)

lemma trial_fails_zero:
  assumes "grid_size self = 0"
  shows "test_1d_to_2d randint self pid seed = Inl IndexError"
    and "test_2d_to_3d randint self pid seed = Inl IndexError"
    and "test_3d_to_4d randint self pid seed = Inl IndexError"
  using assms
  by (simp_all add: test_1d_to_2d_def test_2d_to_3d_def test_3d_to_4d_def
      generate_1d_pattern_def generate_2d_pattern_def generate_3d_pattern_def
      generate_pattern_def embed_middle_row_zero embed_last_axis_def np_zeros_def
      setitem_last_def Let_def)

lemma trial_succeeds_positive:
  assumes "test_1d_to_2d randint self pid seed = Inr r
         \<or> test_2d_to_3d randint self pid seed = Inr r
         \<or> test_3d_to_4d randint self pid seed = Inr r"
  shows "1 \<le> grid_size self"
proof (rule ccontr)
  assume "\<not> 1 \<le> grid_size self"
  then consider "grid_size self < 0" | "grid_size self = 0" by linarith
  then show False using assms trial_fails_negative [of self randint pid seed]
      trial_fails_zero [of self randint pid seed] by cases simp_all
qed

lemma spec_ratio_policy_make_record:
  "spec_ratio_policy (make_record pid tr lower higher p q)"
  by (simp add: spec_ratio_policy_def make_record_fields guarded_ratio_def)

text \<open>
  C4. Embedding a pattern of shape \<open>sh\<close> with target extent \<open>m \<ge> 1\<close> succeeds and gives
  an array of shape \<open>sh @ [m]\<close> (rank one more) whose cell at \<open>idx @ [k]\<close> is the cell of
  the pattern at \<open>idx\<close> when \<open>k = m div 2\<close> and 0 otherwise. The helper
  \<^verbatim>\<open>embed_1d_to_2d\<close> is this embedding at rank 1. The validator's 1D to 2D step does
  the same with the new axis in front. In the object store the helper appends one array
  and leaves every array that was there, the input among them, as it was.
\<close>

theorem embedding_midpoint_slice:
  "(has_shape sh P \<and> 1 \<le> m \<longrightarrow>
      (\<exists>Q. embed_last_axis (map int sh) m P = Inr Q
         \<and> has_shape (sh @ [nat m]) Q
         \<and> (0 \<notin> set sh \<longrightarrow> ndim Q = Suc (ndim P))
         \<and> (\<forall>idx \<in> set (indices sh). \<forall>k < nat m.
               get Q (idx @ [k]) = (if k = nat (m div 2) then get P idx else 0))))
   \<and> (has_shape [x] P1 \<longrightarrow> embed_1d_to_2d P1 m = embed_last_axis (map int [x]) m P1)
   \<and> (has_shape [nat g] P1 \<and> 1 \<le> g \<longrightarrow>
      (\<exists>Q. embed_middle_row g P1 = Inr Q
         \<and> has_shape [nat g, nat g] Q
         \<and> ndim Q = Suc (ndim P1)
         \<and> (\<forall>i < nat g. \<forall>k < nat g.
               get Q [i, k] = (if i = nat (g div 2) then get P1 [k] else 0))))
   \<and> (a < length store \<and> has_shape [x] (store ! a) \<and> 1 \<le> m \<longrightarrow>
      (\<exists>store' b. embed_1d_to_2d_store store a m = Inr (store', b)
         \<and> b = length store
         \<and> length store' = Suc (length store)
         \<and> (\<forall>k < length store. store' ! k = store ! k)
         \<and> embed_1d_to_2d (store ! a) m = Inr (store' ! b)))"
  using embed_last_axis_spec [of sh P m] embed_1d_to_2d_eq [of x P1 m]
    embed_middle_row_spec [of g P1] embed_1d_to_2d_store_spec [of a store x m]
  by simp

theorem embedding_midpoint_slice_witness:
  "has_shape [2] (Dim [Cell 1, Cell 0]) \<and> (1::int) \<le> 3
   \<and> 0 < length [Dim [Cell 1, Cell 0]]
   \<and> (\<exists>Q. embed_last_axis (map int [2]) 3 (Dim [Cell 1, Cell 0]) = Inr Q
         \<and> has_shape ([2] @ [nat 3]) Q
         \<and> (\<forall>idx \<in> set (indices [2]). \<forall>k < nat 3.
               get Q (idx @ [k]) = (if k = nat (3 div 2) then get (Dim [Cell 1, Cell 0]) idx else 0)))
   \<and> embed_1d_to_2d (Dim [Cell 1, Cell 0]) 3 = embed_last_axis (map int [2]) 3 (Dim [Cell 1, Cell 0])
   \<and> (\<exists>Q. embed_middle_row 2 (Dim [Cell 1, Cell 0]) = Inr Q
         \<and> has_shape [nat 2, nat 2] Q
         \<and> ndim Q = Suc (ndim (Dim [Cell 1, Cell 0])))
   \<and> (\<exists>store' b. embed_1d_to_2d_store [Dim [Cell 1, Cell 0]] 0 3 = Inr (store', b)
         \<and> store' ! 0 = Dim [Cell 1, Cell 0]
         \<and> embed_1d_to_2d (Dim [Cell 1, Cell 0]) 3 = Inr (store' ! b))"
proof -
  have h: "has_shape [2] (Dim [Cell 1, Cell 0])" by simp
  have h2: "has_shape [nat 2] (Dim [Cell 1, Cell 0])" by simp
  have n3: "(1::int) \<le> 3" and n2: "(1::int) \<le> 2" by simp_all
  have l: "0 < length [Dim [Cell 1, Cell 0]]" "[Dim [Cell 1, Cell 0]] ! 0 = Dim [Cell 1, Cell 0]"
    by simp_all
  note t = embedding_midpoint_slice [of "[2]" "Dim [Cell 1, Cell 0]" 3 2 "Dim [Cell 1, Cell 0]" 2 0
      "[Dim [Cell 1, Cell 0]]"]
  from t h n3 have a: "\<exists>Q. embed_last_axis (map int [2]) 3 (Dim [Cell 1, Cell 0]) = Inr Q
         \<and> has_shape ([2] @ [nat 3]) Q
         \<and> (\<forall>idx \<in> set (indices [2]). \<forall>k < nat 3.
               get Q (idx @ [k]) = (if k = nat (3 div 2) then get (Dim [Cell 1, Cell 0]) idx else 0))"
    by blast
  from t h have b: "embed_1d_to_2d (Dim [Cell 1, Cell 0]) 3
      = embed_last_axis (map int [2]) 3 (Dim [Cell 1, Cell 0])"
    by blast
  from t h2 n2 have c: "\<exists>Q. embed_middle_row 2 (Dim [Cell 1, Cell 0]) = Inr Q
         \<and> has_shape [nat 2, nat 2] Q
         \<and> ndim Q = Suc (ndim (Dim [Cell 1, Cell 0]))"
    by blast
  from t h n3 l have d: "\<exists>store' b. embed_1d_to_2d_store [Dim [Cell 1, Cell 0]] 0 3 = Inr (store', b)
         \<and> store' ! 0 = Dim [Cell 1, Cell 0]
         \<and> embed_1d_to_2d (Dim [Cell 1, Cell 0]) 3 = Inr (store' ! b)"
    by (metis (no_types, lifting))
  from h a b c d show ?thesis by simp
qed

text \<open>
  C9. Embedding keeps the number of set cells, along the last axis at every rank and
  along the first axis in the validator's 1D to 2D step; hence in the record of every
  trial of the three transitions the two alive-cell counts are equal.
\<close>

theorem embedding_preserves_alive_cells:
  "(has_shape sh P \<and> 1 \<le> m \<longrightarrow>
      (\<exists>Q. embed_last_axis (map int sh) m P = Inr Q \<and> alive_cells Q = alive_cells P))
   \<and> (has_shape [nat g] P1 \<and> 1 \<le> g \<longrightarrow>
      (\<exists>Q. embed_middle_row g P1 = Inr Q \<and> alive_cells Q = alive_cells P1))
   \<and> (1 \<le> grid_size self \<and> (\<forall>dims. has_shape dims (randint seed dims)) \<longrightarrow>
      (\<exists>r12 r23 r34.
          test_1d_to_2d randint self pid seed = Inr r12
        \<and> test_2d_to_3d randint self pid seed = Inr r23
        \<and> test_3d_to_4d randint self pid seed = Inr r34
        \<and> alive_cells_higher r12 = alive_cells_lower r12
        \<and> alive_cells_higher r23 = alive_cells_lower r23
        \<and> alive_cells_higher r34 = alive_cells_lower r34))"
proof (intro conjI impI)
  assume "has_shape sh P \<and> 1 \<le> m"
  then have h: "has_shape sh P" and m: "1 \<le> m" by simp_all
  from m have mid: "nat (m div 2) < nat m" by (rule midpoint_in_range)
  show "\<exists>Q. embed_last_axis (map int sh) m P = Inr Q \<and> alive_cells Q = alive_cells P"
    unfolding embed_last_axis_ok [OF m] using alive_assign_last [OF h mid] by simp
next
  assume "has_shape [nat g] P1 \<and> 1 \<le> g"
  then have g: "1 \<le> g" by simp
  from g have mid: "nat (g div 2) < nat g" by (rule midpoint_in_range)
  show "\<exists>Q. embed_middle_row g P1 = Inr Q \<and> alive_cells Q = alive_cells P1"
    unfolding embed_middle_row_ok [OF g] using alive_middle_row [OF mid] by simp
next
  assume a: "1 \<le> grid_size self \<and> (\<forall>dims. has_shape dims (randint seed dims))"
  then have g: "1 \<le> grid_size self" by simp
  from g have mid: "nat (grid_size self div 2) < nat (grid_size self)"
    by (rule midpoint_in_range)
  from a have s: "\<And>dims. has_shape dims (randint seed dims)" by simp
  show "\<exists>r12 r23 r34.
          test_1d_to_2d randint self pid seed = Inr r12
        \<and> test_2d_to_3d randint self pid seed = Inr r23
        \<and> test_3d_to_4d randint self pid seed = Inr r34
        \<and> alive_cells_higher r12 = alive_cells_lower r12
        \<and> alive_cells_higher r23 = alive_cells_lower r23
        \<and> alive_cells_higher r34 = alive_cells_lower r34"
    unfolding test_1d_to_2d_ok [OF g] test_2d_to_3d_ok [OF g] test_3d_to_4d_ok [OF g]
    using alive_middle_row [OF mid]
      alive_assign_last [OF s mid, of "[nat (grid_size self), nat (grid_size self)]"]
      alive_assign_last [OF s mid,
        of "[nat (grid_size self), nat (grid_size self), nat (grid_size self)]"]
    by (simp add: make_record_fields del: np_full.simps)
qed

theorem embedding_preserves_alive_cells_witness:
  "has_shape [2] (Dim [Cell 1, Cell 0]) \<and> (1::int) \<le> 3
   \<and> 1 \<le> grid_size (init 5 2) \<and> (\<forall>dims. has_shape dims (np_full 1 dims))
   \<and> (\<exists>Q. embed_last_axis (map int [2]) 3 (Dim [Cell 1, Cell 0]) = Inr Q
          \<and> alive_cells Q = alive_cells (Dim [Cell 1, Cell 0]))
   \<and> (\<exists>Q. embed_middle_row 2 (Dim [Cell 1, Cell 0]) = Inr Q
          \<and> alive_cells Q = alive_cells (Dim [Cell 1, Cell 0]))
   \<and> (\<exists>r12 r23 r34.
          test_1d_to_2d (\<lambda>seed. np_full 1) (init 5 2) 0 100 = Inr r12
        \<and> test_2d_to_3d (\<lambda>seed. np_full 1) (init 5 2) 0 100 = Inr r23
        \<and> test_3d_to_4d (\<lambda>seed. np_full 1) (init 5 2) 0 100 = Inr r34
        \<and> alive_cells_higher r12 = alive_cells_lower r12
        \<and> alive_cells_higher r23 = alive_cells_lower r23
        \<and> alive_cells_higher r34 = alive_cells_lower r34)"
proof -
  have h: "has_shape [2] (Dim [Cell 1, Cell 0])" by simp
  have h2: "has_shape [nat 2] (Dim [Cell 1, Cell 0])" by simp
  have g: "1 \<le> grid_size (init 5 2)" by (simp add: init_def)
  have s: "\<forall>dims. has_shape dims (np_full 1 dims)" by (simp add: has_shape_np_full)
  have n3: "(1::int) \<le> 3" and n2: "(1::int) \<le> 2" by simp_all
  note t = embedding_preserves_alive_cells [of "[2]" "Dim [Cell 1, Cell 0]" 3 2 "Dim [Cell 1, Cell 0]"
      "init 5 2" "\<lambda>seed. np_full 1" 100 0]
  from t h n3 have a: "\<exists>Q. embed_last_axis (map int [2]) 3 (Dim [Cell 1, Cell 0]) = Inr Q
          \<and> alive_cells Q = alive_cells (Dim [Cell 1, Cell 0])"
    by blast
  from t h2 n2 have b: "\<exists>Q. embed_middle_row 2 (Dim [Cell 1, Cell 0]) = Inr Q
          \<and> alive_cells Q = alive_cells (Dim [Cell 1, Cell 0])"
    by blast
  from t g s have c: "\<exists>r12 r23 r34.
          test_1d_to_2d (\<lambda>seed. np_full 1) (init 5 2) 0 100 = Inr r12
        \<and> test_2d_to_3d (\<lambda>seed. np_full 1) (init 5 2) 0 100 = Inr r23
        \<and> test_3d_to_4d (\<lambda>seed. np_full 1) (init 5 2) 0 100 = Inr r34
        \<and> alive_cells_higher r12 = alive_cells_lower r12
        \<and> alive_cells_higher r23 = alive_cells_lower r23
        \<and> alive_cells_higher r34 = alive_cells_lower r34"
    by blast
  from h g s a b c show ?thesis by simp
qed

text \<open>
  C5. With a positive grid size every trial of the three transitions returns a record
  and raises nothing, also when the lower-rank phi is 0. In the record the ratio is 0
  and the loss 100 when the lower-rank phi is 0; when it is positive the ratio is
  \<open>phi_higher / phi_lower\<close> and the loss \<open>(1 - ratio) * 100\<close>.
\<close>

theorem trial_ratio_policy:
  assumes "1 \<le> grid_size self" and "\<And>dims. has_shape dims (randint seed dims)"
  shows "\<exists>r12 r23 r34.
          test_1d_to_2d randint self pid seed = Inr r12
        \<and> test_2d_to_3d randint self pid seed = Inr r23
        \<and> test_3d_to_4d randint self pid seed = Inr r34
        \<and> spec_ratio_policy r12 \<and> spec_ratio_policy r23 \<and> spec_ratio_policy r34"
  unfolding test_1d_to_2d_ok [OF assms(1)] test_2d_to_3d_ok [OF assms(1)]
    test_3d_to_4d_ok [OF assms(1)]
  by (simp add: spec_ratio_policy_make_record del: np_full.simps)

theorem trial_ratio_policy_witness:
  "1 \<le> grid_size (init 5 2) \<and> (\<forall>dims. has_shape dims (np_full 1 dims))
   \<and> (\<exists>r12 r23 r34.
          test_1d_to_2d (\<lambda>seed. np_full 1) (init 5 2) 0 100 = Inr r12
        \<and> test_2d_to_3d (\<lambda>seed. np_full 1) (init 5 2) 0 100 = Inr r23
        \<and> test_3d_to_4d (\<lambda>seed. np_full 1) (init 5 2) 0 100 = Inr r34
        \<and> spec_ratio_policy r12 \<and> spec_ratio_policy r23 \<and> spec_ratio_policy r34)"
proof -
  have g: "1 \<le> grid_size (init 5 2)" by (simp add: init_def)
  have s: "\<And>dims. has_shape dims ((\<lambda>seed. np_full 1) (100::int) dims)"
    by (simp add: has_shape_np_full)
  from trial_ratio_policy [of "init 5 2" "\<lambda>seed. np_full 1" 100 0, OF g s] g s
  show ?thesis by (simp add: has_shape_np_full)
qed

section \<open>The integration component against its specification\<close>

lemma get_Dim_Cons: "i < length xs \<Longrightarrow> get (Dim xs) (i # idx) = get (xs ! i) idx"
  by simp

lemma flatten_by_indices: "has_shape sh p \<Longrightarrow> flatten p = map (get p) (indices sh)"
proof (induction sh arbitrary: p)
  case Nil
  then show ?case by (cases p) simp_all
next
  case (Cons n ns)
  then obtain xs where p: "p = Dim xs" and len: "length xs = n"
    and sub: "list_all (has_shape ns) xs"
    by (cases p) simp_all
  have ih: "\<And>x. x \<in> set xs \<Longrightarrow> flatten x = map (get x) (indices ns)"
    using Cons.IH sub by (simp add: list_all_iff)
  have "map (get p) (indices (n # ns)) =
      concat (map (\<lambda>i. map (\<lambda>idx. get (Dim xs) (i # idx)) (indices ns)) [0..<n])"
    by (simp add: p map_concat comp_def)
  also have "\<dots> = concat (map (\<lambda>i. map (get (xs ! i)) (indices ns)) [0..<n])"
  proof -
    have "map (\<lambda>i. map (\<lambda>idx. get (Dim xs) (i # idx)) (indices ns)) [0..<n] =
        map (\<lambda>i. map (get (xs ! i)) (indices ns)) [0..<n]"
      by (rule map_cong [OF refl]) (simp add: len)
    then show ?thesis by (rule arg_cong)
  qed
  also have "\<dots> = concat (map (\<lambda>i. flatten (xs ! i)) [0..<n])"
  proof -
    have "map (\<lambda>i. map (get (xs ! i)) (indices ns)) [0..<n] =
        map (\<lambda>i. flatten (xs ! i)) [0..<n]"
      by (rule map_cong [OF refl]) (simp add: len ih)
    then show ?thesis by (rule arg_cong)
  qed
  also have "\<dots> = concat (map flatten (map (\<lambda>i. xs ! i) [0..<length xs]))"
    by (simp add: len comp_def)
  also have "\<dots> = flatten p" unfolding map_nth by (simp add: p)
  finally show ?case by simp
qed

lemma size_nd_has_shape: "has_shape sh p \<Longrightarrow> size_nd p = prod_list sh"
proof (induction sh arbitrary: p)
  case Nil
  then show ?case by (cases p) (simp_all add: size_nd_def)
next
  case (Cons n ns)
  then obtain xs where p: "p = Dim xs" and len: "length xs = n"
    and sub: "list_all (has_shape ns) xs"
    by (cases p) simp_all
  have "\<And>x. x \<in> set xs \<Longrightarrow> length (flatten x) = prod_list ns"
    using Cons.IH sub by (simp add: list_all_iff size_nd_def)
  then have "map (\<lambda>x. length (flatten x)) xs = replicate (length xs) (prod_list ns)"
    by (simp add: map_replicate_const [symmetric] cong: map_cong)
  then show ?case
    by (simp add: p size_nd_def length_concat comp_def sum_list_replicate len)
qed

lemma roll_list_length [simp]: "length (roll_list xs) = length xs"
  by (simp add: roll_list_def)

lemma roll_list_set [simp]: "set (roll_list xs) = set xs"
proof (cases "xs = []")
  case True
  then show ?thesis by (simp add: roll_list_def)
next
  case False
  have "set (butlast xs @ [last xs]) = set xs"
    by (simp only: append_butlast_last_id [OF False])
  then have "set xs = insert (last xs) (set (butlast xs))" by simp
  then show ?thesis using False by (simp add: roll_list_def)
qed

lemma roll_list_nth:
  assumes "i < length xs"
  shows "roll_list xs ! i = xs ! ((i + length xs - 1) mod length xs)"
proof (cases i)
  case 0
  with assms have "xs \<noteq> []" by auto
  with 0 assms show ?thesis
    by (simp add: roll_list_def last_conv_nth)
next
  case (Suc k)
  with assms have ne: "xs \<noteq> []" and k: "k < length xs - 1" by auto
  have "(Suc k + length xs - 1) mod length xs = (k + length xs) mod length xs" by simp
  also have "\<dots> = k" using k by simp
  finally show ?thesis using Suc ne k by (simp add: roll_list_def nth_butlast)
qed

lemma has_shape_roll: "has_shape sh p \<Longrightarrow> has_shape sh (np_roll axis p)"
proof (induction sh arbitrary: p axis)
  case Nil
  then show ?case by (cases p) simp_all
next
  case (Cons n ns)
  then obtain xs where p: "p = Dim xs" and len: "length xs = n"
    and sub: "list_all (has_shape ns) xs"
    by (cases p) simp_all
  show ?case
  proof (cases axis)
    case 0
    with len sub show ?thesis by (simp add: p list_all_iff)
  next
    case (Suc a)
    with len sub Cons.IH show ?thesis by (simp add: p list_all_iff)
  qed
qed

lemma get_roll:
  "has_shape sh p \<Longrightarrow> axis < length sh \<Longrightarrow> idx \<in> set (indices sh) \<Longrightarrow>
   get (np_roll axis p) idx = get p (shifted_index sh axis idx)"
proof (induction sh arbitrary: p axis idx)
  case Nil
  then show ?case by simp
next
  case (Cons n ns)
  then obtain xs where p: "p = Dim xs" and len: "length xs = n"
    and sub: "list_all (has_shape ns) xs"
    by (cases p) simp_all
  from Cons.prems(3) obtain i rest where idx: "idx = i # rest" and i: "i < n"
    and rest: "rest \<in> set (indices ns)"
    unfolding indices_Cons_iff by blast
  show ?case
  proof (cases axis)
    case 0
    have "(i + n - 1) mod n < n" using i by simp
    then show ?thesis using i len 0
      by (simp add: p idx shifted_index_def roll_list_nth)
  next
    case (Suc a)
    with Cons.prems(2) have a: "a < length ns" by simp
    have "has_shape ns (xs ! i)" using sub i len by (simp add: list_all_length)
    then have "get (np_roll a (xs ! i)) rest = get (xs ! i) (shifted_index ns a rest)"
      using a rest by (rule Cons.IH)
    then show ?thesis using i len Suc
      by (simp add: p idx shifted_index_def)
  qed
qed

lemma neq_count_spec:
  assumes "has_shape sh p" and "axis < length sh"
  shows "neq_count p (np_roll axis p) = spec_differing sh p axis"
proof -
  have a: "flatten p = map (get p) (indices sh)" using assms(1) by (rule flatten_by_indices)
  have "flatten (np_roll axis p) = map (get (np_roll axis p)) (indices sh)"
    using has_shape_roll [OF assms(1)] by (rule flatten_by_indices)
  also have "\<dots> = map (\<lambda>idx. get p (shifted_index sh axis idx)) (indices sh)"
    by (rule map_cong [OF refl]) (rule get_roll [OF assms])
  finally have b: "flatten (np_roll axis p) =
      map (\<lambda>idx. get p (shifted_index sh axis idx)) (indices sh)" .
  have z: "\<And>f g (xs :: nat list list). zip (map f xs) (map g xs) = map (\<lambda>x. (f x, g x :: int)) xs"
    by (simp add: zip_map_map zip_same_conv_map)
  show ?thesis
    unfolding neq_count_def spec_differing_def a b z
    by (simp add: filter_map comp_def)
qed

lemma prod_list_pos: "0 \<notin> set sh \<Longrightarrow> 0 < prod_list (sh :: nat list)"
  by (induction sh) simp_all

lemma calculate_integration_spec:
  assumes "has_shape sh p" and "sh \<noteq> []" and "0 \<notin> set sh"
  shows "calculate_integration p = spec_S sh p"
proof -
  have nd: "ndim p = length sh" using assms(1,3) by (rule ndim_has_shape)
  have sz: "size_nd p = prod_list sh" using assms(1) by (rule size_nd_has_shape)
  have pos: "0 < length sh * prod_list sh"
    using assms(2) prod_list_pos [OF assms(3)] by simp
  have "map (\<lambda>axis. neq_count p (np_roll axis p)) [0..<length sh] =
      map (spec_differing sh p) [0..<length sh]"
    by (rule map_cong [OF refl]) (simp add: neq_count_spec [OF assms(1)])
  then have eq: "sum_list (map (\<lambda>axis. neq_count p (np_roll axis p)) [0..<length sh]) =
      sum_list (map (spec_differing sh p) [0..<length sh])"
    by (rule arg_cong)
  show ?thesis using pos
    by (simp add: calculate_integration_def fold_integration_step nd sz spec_S_def eq)
qed

lemma set_flatten_roll: "set (flatten (np_roll axis p)) = set (flatten p)"
  by (induction axis p rule: np_roll.induct) simp_all

lemma neq_count_uniform:
  assumes "uniform c p"
  shows "neq_count p (np_roll axis p) = 0"
proof -
  have a: "\<forall>x \<in> set (flatten p). x = c" using assms by (simp add: uniform_def list_all_iff)
  then have b: "\<forall>y \<in> set (flatten (np_roll axis p)). y = c" by (simp add: set_flatten_roll)
  have "\<forall>xy \<in> set (zip (flatten p) (flatten (np_roll axis p))). fst xy = snd xy"
    using a b by (auto elim!: in_set_zipE)
  then have "filter (\<lambda>(x, y). x \<noteq> y) (zip (flatten p) (flatten (np_roll axis p))) = []"
    by (auto simp: filter_empty_conv)
  then show ?thesis by (simp add: neq_count_def)
qed

lemma spec_S_uniform:
  assumes "has_shape sh p" and "uniform c p"
  shows "spec_S sh p = 0"
proof -
  have "map (spec_differing sh p) [0..<length sh] = map (\<lambda>axis. 0) [0..<length sh]"
    by (rule map_cong [OF refl])
      (simp add: neq_count_spec [OF assms(1), symmetric] neq_count_uniform [OF assms(2)])
  then have "sum_list (map (spec_differing sh p) [0..<length sh]) =
      sum_list (map (\<lambda>axis. 0) [0..<length sh])"
    by (rule arg_cong)
  then show ?thesis by (simp add: spec_S_def)
qed

text \<open>
  C3. For a pattern of rank at least 1 with positive extents \<open>sh\<close>, the loop of
  _calculate_integration (roll by one along each axis, count the unequal cells, add the
  cell count to the normaliser) returns the number of positions that differ from their
  cyclic predecessor along an axis, summed over the axes, divided by the rank times the
  cell count. The S component of calculate_phi is the same value for every binary
  pattern, the degenerate ones included (both sides are 0 there).
\<close>

theorem integration_matches_spec:
  assumes "has_shape sh pattern" and "sh \<noteq> []" and "0 \<notin> set sh"
  shows "calculate_integration pattern = spec_S sh pattern
       \<and> (binary pattern \<longrightarrow> S_of (calculate_phi pattern) = spec_S sh pattern)"
proof
  show a: "calculate_integration pattern = spec_S sh pattern"
    using assms by (rule calculate_integration_spec)
  show "binary pattern \<longrightarrow> S_of (calculate_phi pattern) = spec_S sh pattern"
  proof
    assume b: "binary pattern"
    show "S_of (calculate_phi pattern) = spec_S sh pattern"
    proof (cases "degenerate pattern")
      case True
      with b have "uniform 0 pattern \<or> uniform 1 pattern" by (simp add: degenerate_iff_uniform)
      then have "spec_S sh pattern = 0" using spec_S_uniform [OF assms(1)] by blast
      with True show ?thesis by (simp add: calculate_phi_degenerate_eq S_of_def)
    next
      case False
      then show ?thesis using a by (simp add: calculate_phi_regular_eq Let_def S_of_def)
    qed
  qed
qed

theorem integration_matches_spec_witness:
  "has_shape [2, 2] (Dim [Dim [Cell 1, Cell 0], Dim [Cell 0, Cell 0]])
   \<and> [2, 2] \<noteq> ([] :: nat list) \<and> 0 \<notin> set [2, 2 :: nat]
   \<and> binary (Dim [Dim [Cell 1, Cell 0], Dim [Cell 0, Cell 0]])
   \<and> calculate_integration (Dim [Dim [Cell 1, Cell 0], Dim [Cell 0, Cell 0]])
       = spec_S [2, 2] (Dim [Dim [Cell 1, Cell 0], Dim [Cell 0, Cell 0]])
   \<and> S_of (calculate_phi (Dim [Dim [Cell 1, Cell 0], Dim [Cell 0, Cell 0]]))
       = spec_S [2, 2] (Dim [Dim [Cell 1, Cell 0], Dim [Cell 0, Cell 0]])"
proof -
  have h: "has_shape [2, 2] (Dim [Dim [Cell 1, Cell 0], Dim [Cell 0, Cell 0]])" by simp
  have n: "[2, 2] \<noteq> ([] :: nat list)" and z: "0 \<notin> set [2, 2 :: nat]" by simp_all
  have b: "binary (Dim [Dim [Cell 1, Cell 0], Dim [Cell 0, Cell 0]])" by (simp add: binary_def)
  from integration_matches_spec [OF h n z] h n z b show ?thesis by blast
qed


lemma grid_checker_alive: "sum_list (flatten grid_checker) = 200"
  by code_simp

lemma grid_checker_cells: "length (flatten grid_checker) = 400"
  by code_simp

lemma grid_checker_ndim: "ndim grid_checker = 2"
  by code_simp

lemma grid_checker_axis0: "neq_count grid_checker (np_roll 0 grid_checker) = 400"
  by code_simp

lemma grid_checker_axis1: "neq_count grid_checker (np_roll (Suc 0) grid_checker) = 400"
  by code_simp

lemma grid_checker_integration: "calculate_integration grid_checker = 1"
proof -
  have "[0..<ndim grid_checker] = [0, Suc 0]"
    unfolding grid_checker_ndim by (simp add: upt_rec)
  then show ?thesis
    by (simp add: calculate_integration_def integration_step_def size_nd_def
        grid_checker_cells grid_checker_axis0 grid_checker_axis1)
qed

lemma log_two_half: "log 2 (1 / 2) = - 1"
  by (simp add: log_recip)

lemma grid_checker_phi: "calculate_phi grid_checker = (3 / 2, 1 / 2, 1, 1)"
  by (simp add: calculate_phi_def Let_def grid_checker_alive grid_checker_cells
      grid_checker_integration log_two_half)

text \<open>
  C8. On the 20 by 20 checkerboard of the sanity test calculate_phi returns a phi
  strictly greater than 1 (it is 3/2: R = 1/2, S = 1, D = 1).
\<close>

theorem checkerboard_phi_above_one: "1 < phi_of (calculate_phi grid_checker)"
  by (simp add: grid_checker_phi phi_of_def)

section \<open>Configuration\<close>

lemma run_trials_first_fails:
  "trial i (base + i) = Inl e \<Longrightarrow> run_trials trial base (i # rest) = Inl e"
  by simp

lemma trial_ids_nonempty: "1 \<le> k \<Longrightarrow> map int [0..<nat k] = 0 # map int [Suc 0..<nat k]"
  by (simp add: upt_conv_Cons)

lemma run_all_tests_no_patterns:
  "n \<le> 0 \<Longrightarrow> run_all_tests randint (init n g) = Inr ([], [], [])"
  by (simp add: run_all_tests_def init_def)

lemma run_all_tests_negative_grid:
  assumes "1 \<le> k" and "h < 0"
  shows "run_all_tests randint (init k h) = Inl ValueError"
proof -
  have "test_1d_to_2d randint (init k h) 0 (100 + 0) = Inl ValueError"
    using assms(2) by (intro trial_fails_negative) (simp add: init_def)
  then have "run_trials (test_1d_to_2d randint (init k h)) 100 (map int [0..<nat k])
      = Inl ValueError"
    unfolding trial_ids_nonempty [OF assms(1)] by (rule run_trials_first_fails)
  then show ?thesis by (simp add: run_all_tests_def init_def)
qed

lemma run_all_tests_zero_grid:
  assumes "1 \<le> k"
  shows "run_all_tests randint (init k 0) = Inl IndexError"
proof -
  have "test_1d_to_2d randint (init k 0) 0 (100 + 0) = Inl IndexError"
    by (intro trial_fails_zero) (simp add: init_def)
  then have "run_trials (test_1d_to_2d randint (init k 0)) 100 (map int [0..<nat k])
      = Inl IndexError"
    unfolding trial_ids_nonempty [OF assms(1)] by (rule run_trials_first_fails)
  then show ?thesis by (simp add: run_all_tests_def init_def)
qed

lemma embed_1d_to_2d_extent:
  assumes "has_shape [x] p"
  shows "m < 0 \<Longrightarrow> embed_1d_to_2d p m = Inl ValueError"
    and "embed_1d_to_2d p 0 = Inl IndexError"
    and "1 \<le> m \<Longrightarrow> \<exists>Q. embed_1d_to_2d p m = Inr Q"
  using embed_last_axis_negative [of m "[x]" p] embed_last_axis_zero [of "[x]" p]
    embed_last_axis_ok [of m "[x]" p]
  by (simp_all add: embed_1d_to_2d_eq [OF assms])

text \<open>
  C7, as the claim states it, fails: a validator constructed with pattern count 0 runs
  and returns its three (empty) result sequences; nothing is rejected.
\<close>

theorem zero_patterns_accepted:
  "run_all_tests constant_rng (init 0 20) = Inr ([], [], [])"
  by (simp add: run_all_tests_def init_def)

text \<open>
  C7, amended. The constructor stores any pattern count and grid extent unchecked. With
  a non-positive pattern count the run does no trial and returns three empty sequences.
  With a positive pattern count a negative grid extent ends the run with the ValueError
  of pattern generation and a grid extent of 0 with the IndexError of the slice
  assignment; no records are returned. The embedding helper fails on a rank-1 pattern
  with ValueError for a negative target extent and with IndexError for target extent 0,
  and succeeds for every target extent from 1 on.
\<close>

theorem configuration_not_validated:
  "n_patterns (init n g) = n \<and> grid_size (init n g) = g
   \<and> (n \<le> 0 \<longrightarrow> run_all_tests randint (init n g) = Inr ([], [], []))
   \<and> (1 \<le> k \<and> h < 0 \<longrightarrow> run_all_tests randint (init k h) = Inl ValueError)
   \<and> (1 \<le> k \<longrightarrow> run_all_tests randint (init k 0) = Inl IndexError)
   \<and> (has_shape [x] p \<and> h < 0 \<longrightarrow> embed_1d_to_2d p h = Inl ValueError)
   \<and> (has_shape [x] p \<longrightarrow> embed_1d_to_2d p 0 = Inl IndexError)
   \<and> (has_shape [x] p \<and> 1 \<le> m \<longrightarrow> (\<exists>Q. embed_1d_to_2d p m = Inr Q))"
  using run_all_tests_no_patterns [of n randint g] run_all_tests_negative_grid [of k h randint]
    run_all_tests_zero_grid [of k randint] embed_1d_to_2d_extent [of x p]
  by (simp add: init_def)

theorem configuration_not_validated_witness:
  "(- 3 :: int) \<le> 0 \<and> (1::int) \<le> 5 \<and> (- 2 :: int) < 0 \<and> (1::int) \<le> 4
   \<and> has_shape [2] (Dim [Cell 1, Cell 0])
   \<and> n_patterns (init (- 3) 20) = - 3 \<and> grid_size (init (- 3) 20) = 20
   \<and> run_all_tests constant_rng (init (- 3) 20) = Inr ([], [], [])
   \<and> run_all_tests constant_rng (init 5 (- 2)) = Inl ValueError
   \<and> run_all_tests constant_rng (init 5 0) = Inl IndexError
   \<and> embed_1d_to_2d (Dim [Cell 1, Cell 0]) (- 2) = Inl ValueError
   \<and> embed_1d_to_2d (Dim [Cell 1, Cell 0]) 0 = Inl IndexError
   \<and> (\<exists>Q. embed_1d_to_2d (Dim [Cell 1, Cell 0]) 4 = Inr Q)"
proof -
  have h: "has_shape [2] (Dim [Cell 1, Cell 0])" by simp
  have a: "(- 3 :: int) \<le> 0" "(1::int) \<le> 5" "(- 2 :: int) < 0" "(1::int) \<le> 4" by simp_all
  note t = configuration_not_validated [of "- 3" 20 constant_rng 5 "- 2" 2 "Dim [Cell 1, Cell 0]" 4]
  from t h a show ?thesis by blast
qed

end
